theory Spec2Isabelle
  imports Complex_Main "HOL-Library.Multiset"
begin

section \<open>JavaScript numbers\<close>

text \<open>
  The layout arithmetic of \<^verbatim>\<open>generatePdf\<close> runs on JavaScript numbers. A number is
  modelled as a real, or one of the three special values that division by zero and
  arithmetic on them produce. Two things are idealised and stay outside every theorem
  below: finite results are exact (no rounding to 53 bits, no overflow), and the two
  zeros are identified, a zero divisor counting as \<open>+0\<close> (every divisor of the source is
  a difference of finite numbers, a quotient of non-negative integers or the literal 2,
  none of which is \<open>-0\<close>).
\<close>

datatype number = Fin real | PInf | NInf | NaN

fun js_add :: "number \<Rightarrow> number \<Rightarrow> number" where
  "js_add NaN _ = NaN"
| "js_add _ NaN = NaN"
| "js_add (Fin a) (Fin b) = Fin (a + b)"
| "js_add (Fin a) PInf = PInf"
| "js_add (Fin a) NInf = NInf"
| "js_add PInf (Fin b) = PInf"
| "js_add PInf PInf = PInf"
| "js_add PInf NInf = NaN"
| "js_add NInf (Fin b) = NInf"
| "js_add NInf PInf = NaN"
| "js_add NInf NInf = NInf"

fun js_neg :: "number \<Rightarrow> number" where
  "js_neg (Fin a) = Fin (- a)"
| "js_neg PInf = NInf"
| "js_neg NInf = PInf"
| "js_neg NaN = NaN"

definition js_sub :: "number \<Rightarrow> number \<Rightarrow> number" where
  "js_sub a b = js_add a (js_neg b)"

text \<open>The infinity whose sign is the sign of a real; \<open>NaN\<close> for zero.\<close>

definition signed_inf :: "real \<Rightarrow> number" where
  "signed_inf s = (if 0 < s then PInf else if s < 0 then NInf else NaN)"

fun js_mul :: "number \<Rightarrow> number \<Rightarrow> number" where
  "js_mul NaN _ = NaN"
| "js_mul _ NaN = NaN"
| "js_mul (Fin a) (Fin b) = Fin (a * b)"
| "js_mul (Fin a) PInf = signed_inf a"
| "js_mul (Fin a) NInf = signed_inf (- a)"
| "js_mul PInf (Fin b) = signed_inf b"
| "js_mul NInf (Fin b) = signed_inf (- b)"
| "js_mul PInf PInf = PInf"
| "js_mul PInf NInf = NInf"
| "js_mul NInf PInf = NInf"
| "js_mul NInf NInf = PInf"

fun js_div :: "number \<Rightarrow> number \<Rightarrow> number" where
  "js_div NaN _ = NaN"
| "js_div _ NaN = NaN"
| "js_div (Fin a) (Fin b) = (if b \<noteq> 0 then Fin (a / b) else signed_inf a)"
| "js_div (Fin a) PInf = Fin 0"
| "js_div (Fin a) NInf = Fin 0"
| "js_div PInf (Fin b) = (if 0 \<le> b then PInf else NInf)"
| "js_div NInf (Fin b) = (if 0 \<le> b then NInf else PInf)"
| "js_div PInf PInf = NaN"
| "js_div PInf NInf = NaN"
| "js_div NInf PInf = NaN"
| "js_div NInf NInf = NaN"

text \<open>The comparisons \<^verbatim>\<open>a > b\<close> and \<^verbatim>\<open>a <= b\<close>: false as soon as one side is \<open>NaN\<close>.\<close>

fun js_gt :: "number \<Rightarrow> number \<Rightarrow> bool" where
  "js_gt NaN _ = False"
| "js_gt _ NaN = False"
| "js_gt (Fin a) (Fin b) = (b < a)"
| "js_gt (Fin a) PInf = False"
| "js_gt (Fin a) NInf = True"
| "js_gt PInf PInf = False"
| "js_gt PInf _ = True"
| "js_gt NInf _ = False"

fun js_le :: "number \<Rightarrow> number \<Rightarrow> bool" where
  "js_le NaN _ = False"
| "js_le _ NaN = False"
| "js_le (Fin a) (Fin b) = (a \<le> b)"
| "js_le (Fin a) PInf = True"
| "js_le (Fin a) NInf = False"
| "js_le PInf PInf = True"
| "js_le PInf _ = False"
| "js_le NInf _ = True"

text \<open>
  \<^verbatim>\<open>`${n}`\<close> for a non-negative integer below \<open>10^21\<close> (an index or an array length):
  its decimal digits.
\<close>

definition digit :: "nat \<Rightarrow> char" where
  "digit d = ''0123456789'' ! d"

function toString :: "nat \<Rightarrow> string" where
  "toString n = (if n < 10 then [digit n] else toString (n div 10) @ [digit (n mod 10)])"
  by pat_completeness auto
termination
  by (relation "measure (\<lambda>n. n)") auto

declare toString.simps [simp del]

section \<open>The PDF service\<close>

subsection \<open>Files, images and the document writer\<close>

text \<open>
  A decoded image carries its pixel dimensions, which the DOM reports as unsigned
  integers. A \<^verbatim>\<open>File\<close> has a name; whether its bytes decode is decided by the browser,
  so the file carries the outcome: \<open>decoded f = None\<close> when \<^verbatim>\<open>loadImage\<close> rejects.
\<close>

record HTMLImageElement =
  width :: nat
  height :: nat

record File =
  name :: string
  decoded :: "HTMLImageElement option"

datatype js_error = LoadError | TypeError

definition loadImage :: "File \<Rightarrow> js_error + HTMLImageElement" where
  "loadImage f = (case decoded f of None \<Rightarrow> Inl LoadError | Some img \<Rightarrow> Inr img)"

text \<open>
  jsPDF is loaded from a CDN and is not part of the repository. The document is modelled
  as the calls it receives, grouped by the page that was current when each call was made:
  the constructor opens the first page (the source relies on it: it adds a page "for each
  image except the first one"), \<^verbatim>\<open>addPage\<close> appends a page and makes it current, and every
  other call is recorded on the current page with the arguments the source passes. No call
  of the writer throws in the model.
\<close>

datatype call =
    AddImage HTMLImageElement string number number number number
  | SetFont string string
  | SetTextColor "nat list"
  | SetFontSize nat
  | Text string number number "string option"

record jsPDF =
  pages :: "call list list"
  saved :: "string option"

definition new_jsPDF :: jsPDF where
  "new_jsPDF = \<lparr>pages = [[]], saved = None\<rparr>"

definition addPage :: "jsPDF \<Rightarrow> jsPDF" where
  "addPage d = d\<lparr>pages := pages d @ [[]]\<rparr>"

definition emit :: "call \<Rightarrow> jsPDF \<Rightarrow> jsPDF" where
  "emit c d = d\<lparr>pages := butlast (pages d) @ [last (pages d) @ [c]]\<rparr>"

definition save :: "string \<Rightarrow> jsPDF \<Rightarrow> jsPDF" where
  "save fname d = d\<lparr>saved := Some fname\<rparr>"

text \<open>The page size in millimetres, as jsPDF reports it for the chosen format.\<close>

record pageSize =
  getWidth :: real
  getHeight :: real

subsection \<open>Placement\<close>

definition PAGE_WIDTH :: "pageSize \<Rightarrow> number" where
  "PAGE_WIDTH ps = Fin (getWidth ps)"

definition PAGE_HEIGHT :: "pageSize \<Rightarrow> number" where
  "PAGE_HEIGHT ps = Fin (getHeight ps)"

definition MARGIN :: number where
  "MARGIN = Fin 15"

definition FOOTER_HEIGHT :: number where
  "FOOTER_HEIGHT = Fin 20"

definition MAX_WIDTH :: "pageSize \<Rightarrow> number" where
  "MAX_WIDTH ps = js_sub (PAGE_WIDTH ps) (js_mul MARGIN (Fin 2))"

definition MAX_HEIGHT :: "pageSize \<Rightarrow> number" where
  "MAX_HEIGHT ps = js_sub (js_sub (PAGE_HEIGHT ps) (js_mul MARGIN (Fin 2))) FOOTER_HEIGHT"

definition imgRatio :: "HTMLImageElement \<Rightarrow> number" where
  "imgRatio img = js_div (Fin (real (width img))) (Fin (real (height img)))"

definition maxRatio :: "pageSize \<Rightarrow> number" where
  "maxRatio ps = js_div (MAX_WIDTH ps) (MAX_HEIGHT ps)"

definition imgFinalWidth :: "pageSize \<Rightarrow> HTMLImageElement \<Rightarrow> number" where
  "imgFinalWidth ps img =
     (if js_gt (imgRatio img) (maxRatio ps) then MAX_WIDTH ps
      else js_mul (MAX_HEIGHT ps) (imgRatio img))"

definition imgFinalHeight :: "pageSize \<Rightarrow> HTMLImageElement \<Rightarrow> number" where
  "imgFinalHeight ps img =
     (if js_gt (imgRatio img) (maxRatio ps) then js_div (MAX_WIDTH ps) (imgRatio img)
      else MAX_HEIGHT ps)"

definition image_x :: "pageSize \<Rightarrow> HTMLImageElement \<Rightarrow> number" where
  "image_x ps img = js_div (js_sub (PAGE_WIDTH ps) (imgFinalWidth ps img)) (Fin 2)"

definition image_y :: number where
  "image_y = MARGIN"

subsection \<open>The page loop\<close>

text \<open>
  What one call of \<^verbatim>\<open>generatePdf\<close> does: the document, the files handed to
  \<^verbatim>\<open>loadImage\<close> in the order of the calls, and the lines written to the console.
\<close>

record run =
  doc :: jsPDF
  loadImage_calls :: "File list"
  console :: "string list"

definition pageNumText :: "nat \<Rightarrow> File list \<Rightarrow> string" where
  "pageNumText i files = ''Page '' @ toString (i + 1) @ '' of '' @ toString (length files)"

definition errorText :: "File \<Rightarrow> string" where
  "errorText f = ''Error: Could not load image '' @ [CHR 0x22] @ name f @ [CHR 0x22]"

text \<open>The \<^verbatim>\<open>try\<close> block after a successful load, and the \<^verbatim>\<open>catch\<close> block.\<close>

definition try_calls :: "pageSize \<Rightarrow> File list \<Rightarrow> nat \<Rightarrow> HTMLImageElement \<Rightarrow> call list" where
  "try_calls ps files i img =
     [AddImage img ''JPEG'' (image_x ps img) image_y (imgFinalWidth ps img) (imgFinalHeight ps img),
      SetFont ''gothic'' ''normal'',
      SetTextColor [100],
      SetFontSize 10,
      Text (pageNumText i files) (js_div (PAGE_WIDTH ps) (Fin 2))
        (js_sub (PAGE_HEIGHT ps) MARGIN) (Some ''center'')]"

definition catch_calls :: "File \<Rightarrow> call list" where
  "catch_calls f =
     [SetFont ''gothic'' ''normal'',
      SetTextColor [255, 0, 0],
      Text (errorText f) MARGIN MARGIN None]"

definition emits :: "call list \<Rightarrow> jsPDF \<Rightarrow> jsPDF" where
  "emits cs d = fold emit cs d"

definition body :: "pageSize \<Rightarrow> File list \<Rightarrow> nat \<Rightarrow> run \<Rightarrow> run" where
  "body ps files i st =
     (let f = files ! i;
          st1 = (if 0 < i then st\<lparr>doc := addPage (doc st)\<rparr> else st);
          st2 = st1\<lparr>loadImage_calls := loadImage_calls st1 @ [f]\<rparr>
      in case loadImage f of
           Inr img \<Rightarrow> st2\<lparr>doc := emits (try_calls ps files i img) (doc st2)\<rparr>
         | Inl err \<Rightarrow>
             st2\<lparr>console := console st2 @ [''Error processing image '' @ name f @ '':''],
                 doc := emits (catch_calls f) (doc st2)\<rparr>)"

function loop :: "pageSize \<Rightarrow> File list \<Rightarrow> nat \<Rightarrow> run \<Rightarrow> run" where
  "loop ps files i st =
     (if i < length files then loop ps files (i + 1) (body ps files i st) else st)"
  by pat_completeness auto
termination
  by (relation "measure (\<lambda>(ps, files, i, st). length files - i)") auto

declare loop.simps [simp del]

definition generatePdf :: "pageSize \<Rightarrow> File list \<Rightarrow> string \<Rightarrow> run" where
  "generatePdf ps files pdfFilename =
     (let st = loop ps files 0 \<lparr>doc = new_jsPDF, loadImage_calls = [], console = []\<rparr>
      in st\<lparr>doc := save (pdfFilename @ ''.pdf'') (doc st)\<rparr>)"

text \<open>The calls one iteration of the loop records on its page, and the strings a page draws.\<close>

definition page_calls :: "pageSize \<Rightarrow> File list \<Rightarrow> nat \<Rightarrow> call list" where
  "page_calls ps files i =
     (case loadImage (files ! i) of
        Inr img \<Rightarrow> try_calls ps files i img
      | Inl err \<Rightarrow> catch_calls (files ! i))"


section \<open>The application\<close>

subsection \<open>Arrays and strings\<close>

text \<open>
  \<^verbatim>\<open>Array.prototype.splice(start, deleteCount, ...items)\<close> for a non-negative integer
  \<open>start\<close>: both numbers are clamped to the array, the removed elements are returned and
  the items take their place. \<^verbatim>\<open>Array.prototype.filter\<close> hands the callback each element
  with its index.
\<close>

definition splice_js :: "nat \<Rightarrow> nat \<Rightarrow> 'a list \<Rightarrow> 'a list \<Rightarrow> 'a list \<times> 'a list" where
  "splice_js start deleteCount items xs =
     (let actualStart = min start (length xs);
          actualDeleteCount = min deleteCount (length xs - actualStart)
      in (take actualDeleteCount (drop actualStart xs),
          take actualStart xs @ items @ drop (actualStart + actualDeleteCount) xs))"

definition filter_indexed :: "('a \<Rightarrow> nat \<Rightarrow> bool) \<Rightarrow> 'a list \<Rightarrow> 'a list" where
  "filter_indexed p xs = map fst (filter (\<lambda>(x, index). p x index) (zip xs [0..<length xs]))"

text \<open>
  \<^verbatim>\<open>String.prototype.trim\<close> strips white space and line terminators from both ends. A
  \<open>char\<close> is a code unit below 256; in that range the stripped ones are TAB, LF, VT, FF,
  CR, SP and NBSP.
\<close>

definition WhiteSpace :: "char \<Rightarrow> bool" where
  "WhiteSpace c = ((of_char c :: nat) \<in> {9, 10, 11, 12, 13, 32, 160})"

definition trim :: "string \<Rightarrow> string" where
  "trim s = rev (dropWhile WhiteSpace (rev (dropWhile WhiteSpace s)))"

subsection \<open>State and handlers\<close>

record ImageFile =
  "file" :: File
  previewUrl :: string

text \<open>
  The component's state, its two drag references, and the preview URLs handed to
  \<^verbatim>\<open>URL.revokeObjectURL\<close> so far. Styling of DOM nodes is left out.
\<close>

record App =
  imageFiles :: "ImageFile list"
  pdfFilename :: string
  isLoading :: bool
  error :: "string option"
  dragItemIndex :: "nat option"
  dragOverItemIndex :: "nat option"
  revoked :: "string list"

definition handleDragStart :: "nat \<Rightarrow> App \<Rightarrow> App" where
  "handleDragStart index s = s\<lparr>dragItemIndex := Some index\<rparr>"

definition handleDragEnter :: "nat \<Rightarrow> App \<Rightarrow> App" where
  "handleDragEnter index s =
     (if Some index = dragItemIndex s then s else s\<lparr>dragOverItemIndex := Some index\<rparr>)"

text \<open>
  When the dragged index is past the end, the first \<^verbatim>\<open>splice\<close> removes nothing,
  \<^verbatim>\<open>draggedItem\<close> is \<^verbatim>\<open>undefined\<close> and the second \<^verbatim>\<open>splice\<close> stores it in the array:
  no list of \<open>ImageFile\<close> describes that array, and the model answers \<open>Inl TypeError\<close>.
\<close>

definition handleDrop :: "App \<Rightarrow> js_error + App" where
  "handleDrop s =
     (case (dragItemIndex s, dragOverItemIndex s) of
        (Some a, Some b) \<Rightarrow>
          if a = b then Inr s
          else
            (let files = imageFiles s;
                 (removed, files1) = splice_js a 1 [] files
             in case removed of
                  [] \<Rightarrow> Inl TypeError
                | draggedItem # _ \<Rightarrow>
                    Inr (s\<lparr>imageFiles := snd (splice_js b 0 [draggedItem] files1)\<rparr>))
      | _ \<Rightarrow> Inr s)"

definition handleDragEnd :: "App \<Rightarrow> App" where
  "handleDragEnd s = s\<lparr>dragItemIndex := None, dragOverItemIndex := None\<rparr>"

text \<open>
  \<^verbatim>\<open>prev[indexToRemove].previewUrl\<close> throws a TypeError when the index is past the end.
\<close>

definition handleRemoveFile :: "nat \<Rightarrow> App \<Rightarrow> js_error + App" where
  "handleRemoveFile indexToRemove s =
     (let prev = imageFiles s;
          newFiles = filter_indexed (\<lambda>_ index. index \<noteq> indexToRemove) prev
      in if indexToRemove < length prev
         then Inr (s\<lparr>revoked := revoked s @ [previewUrl (prev ! indexToRemove)],
                     imageFiles := newFiles\<rparr>)
         else Inl TypeError)"

text \<open>
  The second component is the run of \<^verbatim>\<open>generatePdf\<close>, when it was called. The writer
  does not throw in the model, so the \<^verbatim>\<open>catch\<close> branch of the handler has no case here.
\<close>

definition handleGeneratePdf :: "pageSize \<Rightarrow> App \<Rightarrow> App \<times> run option" where
  "handleGeneratePdf ps s =
     (if length (imageFiles s) = 0
      then (s\<lparr>error := Some ''Please add at least one image.''\<rparr>, None)
      else if trim (pdfFilename s) = []
      then (s\<lparr>error := Some ''Please provide a filename for the PDF.''\<rparr>, None)
      else
        (let filesToProcess = map file (imageFiles s)
         in (s\<lparr>isLoading := False, error := None\<rparr>,
             Some (generatePdf ps filesToProcess (trim (pdfFilename s))))))"

section \<open>Example inputs\<close>

definition a4 :: pageSize where
  "a4 = \<lparr>getWidth = 297, getHeight = 210\<rparr>"

definition wide :: File where
  "wide = \<lparr>name = ''wide.png'', decoded = Some \<lparr>width = 2, height = 1\<rparr>\<rparr>"

definition tall :: File where
  "tall = \<lparr>name = ''tall.png'', decoded = Some \<lparr>width = 1, height = 3\<rparr>\<rparr>"

definition corrupt :: File where
  "corrupt = \<lparr>name = ''bad.png'', decoded = None\<rparr>"


definition app0 :: App where
  "app0 = \<lparr>imageFiles = [\<lparr>file = wide, previewUrl = ''blob:1''\<rparr>,
                          \<lparr>file = corrupt, previewUrl = ''blob:2''\<rparr>,
                          \<lparr>file = tall, previewUrl = ''blob:3''\<rparr>],
           pdfFilename = ''converted-images'', isLoading = False, error = None,
           dragItemIndex = None, dragOverItemIndex = None, revoked = []\<rparr>"

section \<open>The page loop, page by page\<close>

lemma emit_pages: "pages d = P @ [cs] \<Longrightarrow> pages (emit c d) = P @ [cs @ [c]]"
  by (simp add: emit_def)

lemma emits_pages: "pages d = P @ [cs] \<Longrightarrow> pages (emits xs d) = P @ [cs @ xs]"
  unfolding emits_def
proof (induction xs arbitrary: d cs)
  case Nil
  then show ?case by simp
next
  case (Cons x xs)
  have "pages (emit x d) = P @ [cs @ [x]]"
    using Cons.prems by (rule emit_pages)
  from Cons.IH [OF this] show ?case by simp
qed

lemma emits_saved: "saved (emits xs d) = saved d"
  unfolding emits_def by (induction xs arbitrary: d) (simp_all add: emit_def)

lemma body_pages:
  assumes "pages (doc st) = P @ [cs]"
  shows "pages (doc (body ps files i st)) =
           (if 0 < i then P @ [cs, page_calls ps files i] else P @ [cs @ page_calls ps files i])"
proof (cases "0 < i")
  case True
  have "pages (addPage (doc st)) = (P @ [cs]) @ [[]]"
    using assms by (simp add: addPage_def)
  then have "pages (emits xs (addPage (doc st))) = (P @ [cs]) @ [[] @ xs]" for xs
    by (rule emits_pages)
  with True show ?thesis
    by (simp add: body_def Let_def page_calls_def split: sum.splits)
next
  case False
  have "pages (emits xs (doc st)) = P @ [cs @ xs]" for xs
    using assms by (rule emits_pages)
  with False show ?thesis
    by (simp add: body_def Let_def page_calls_def split: sum.splits)
qed

lemma body_loads:
  "loadImage_calls (body ps files i st) = loadImage_calls st @ [files ! i]"
  by (simp add: body_def Let_def split: sum.splits)

lemma body_saved: "saved (doc (body ps files i st)) = saved (doc st)"
  by (simp add: body_def Let_def emits_saved addPage_def split: sum.splits)

lemma loop_pages:
  "0 < i \<Longrightarrow> pages (doc st) \<noteq> [] \<Longrightarrow>
   pages (doc (loop ps files i st)) = pages (doc st) @ map (page_calls ps files) [i..<length files]"
proof (induction ps files i st rule: loop.induct)
  case (1 ps files i st)
  show ?case
  proof (cases "i < length files")
    case True
    obtain P cs where split: "pages (doc st) = P @ [cs]"
      using "1.prems"(2) by (metis append_butlast_last_id)
    have step: "pages (doc (body ps files i st)) = pages (doc st) @ [page_calls ps files i]"
      using body_pages [OF split, of ps files i] "1.prems"(1) split by simp
    have "pages (doc (loop ps files (i + 1) (body ps files i st))) =
            pages (doc (body ps files i st)) @ map (page_calls ps files) [i + 1..<length files]"
      using "1.IH" [OF True] step by simp
    with True step show ?thesis
      by (subst loop.simps) (simp add: upt_conv_Cons)
  next
    case False
    then show ?thesis by (subst loop.simps) simp
  qed
qed

lemma loop_loads:
  "loadImage_calls (loop ps files i st) = loadImage_calls st @ drop i files"
proof (induction ps files i st rule: loop.induct)
  case (1 ps files i st)
  show ?case
  proof (cases "i < length files")
    case True
    with "1.IH" show ?thesis
      by (subst loop.simps) (simp add: body_loads Cons_nth_drop_Suc)
  next
    case False
    then show ?thesis by (subst loop.simps) simp
  qed
qed

lemma generatePdf_pages:
  "pages (doc (generatePdf ps files nm)) =
     (if files = [] then [[]] else map (page_calls ps files) [0..<length files])"
proof (cases "files = []")
  case True
  then show ?thesis
    by (simp add: generatePdf_def Let_def loop.simps [of ps "[]"] new_jsPDF_def save_def)
next
  case False
  define st0 where "st0 = \<lparr>doc = new_jsPDF, loadImage_calls = [], console = []\<rparr>"
  have p0: "pages (doc st0) = [] @ [[]]"
    by (simp add: st0_def new_jsPDF_def)
  have first: "pages (doc (body ps files 0 st0)) = [page_calls ps files 0]"
    using body_pages [OF p0, of ps files 0] by simp
  have "loop ps files 0 st0 = loop ps files 1 (body ps files 0 st0)"
    using False by (subst loop.simps) simp
  moreover have "pages (doc (loop ps files 1 (body ps files 0 st0))) =
      pages (doc (body ps files 0 st0)) @ map (page_calls ps files) [1..<length files]"
    using first by (intro loop_pages) simp_all
  ultimately have "pages (doc (loop ps files 0 st0)) = map (page_calls ps files) [0..<length files]"
    using first False by (simp add: upt_conv_Cons)
  with False show ?thesis
    by (simp add: generatePdf_def Let_def st0_def save_def)
qed

lemma generatePdf_loads: "loadImage_calls (generatePdf ps files nm) = files"
  by (simp add: generatePdf_def Let_def loop_loads)

lemma generatePdf_saved: "saved (doc (generatePdf ps files nm)) = Some (nm @ ''.pdf'')"
  by (simp add: generatePdf_def Let_def save_def)

lemma generatePdf_page:
  "i < length files \<Longrightarrow> pages (doc (generatePdf ps files nm)) ! i = page_calls ps files i"
  by (auto simp: generatePdf_pages)

lemma page_decoded:
  "i < length files \<Longrightarrow> decoded (files ! i) = Some img \<Longrightarrow>
   pages (doc (generatePdf ps files nm)) ! i = try_calls ps files i img"
  by (simp add: generatePdf_page page_calls_def loadImage_def)

lemma page_failed:
  "i < length files \<Longrightarrow> decoded (files ! i) = None \<Longrightarrow>
   pages (doc (generatePdf ps files nm)) ! i = catch_calls (files ! i)"
  by (simp add: generatePdf_page page_calls_def loadImage_def)

lemma a4_page:
  "PAGE_WIDTH a4 = Fin 297" "PAGE_HEIGHT a4 = Fin 210"
  "MAX_WIDTH a4 = Fin 267" "MAX_HEIGHT a4 = Fin 160" "maxRatio a4 = Fin (267 / 160)"
  by (simp_all add: maxRatio_def MAX_WIDTH_def MAX_HEIGHT_def PAGE_WIDTH_def PAGE_HEIGHT_def
      MARGIN_def FOOTER_HEIGHT_def js_sub_def a4_def)

section \<open>Placement of a decoded image\<close>

text \<open>
  C1. The page of every image that decodes starts with the \<^verbatim>\<open>addImage\<close> call, and the
  size it passes follows the two branches: with \<open>imgRatio = width / height\<close> and
  \<open>maxRatio = MAX_WIDTH / MAX_HEIGHT\<close>, when \<open>imgRatio > maxRatio\<close> the final width is
  \<open>MAX_WIDTH\<close> and the final height is \<open>MAX_WIDTH / imgRatio\<close>; otherwise the final height
  is \<open>MAX_HEIGHT\<close> and the final width is \<open>MAX_HEIGHT * imgRatio\<close>.
\<close>

theorem placement_branches:
  assumes "i < length files" and "decoded (files ! i) = Some img"
  shows "hd (pages (doc (generatePdf ps files nm)) ! i) =
           AddImage img ''JPEG'' (image_x ps img) image_y (imgFinalWidth ps img) (imgFinalHeight ps img)
       \<and> imgRatio img = js_div (Fin (real (width img))) (Fin (real (height img)))
       \<and> maxRatio ps = js_div (MAX_WIDTH ps) (MAX_HEIGHT ps)
       \<and> (if js_gt (imgRatio img) (maxRatio ps)
          then imgFinalWidth ps img = MAX_WIDTH ps
             \<and> imgFinalHeight ps img = js_div (MAX_WIDTH ps) (imgRatio img)
          else imgFinalHeight ps img = MAX_HEIGHT ps
             \<and> imgFinalWidth ps img = js_mul (MAX_HEIGHT ps) (imgRatio img))"
  using assms
  by (simp add: page_decoded try_calls_def imgRatio_def maxRatio_def imgFinalWidth_def
      imgFinalHeight_def)

theorem placement_branches_witness:
  "hd (pages (doc (generatePdf a4 [wide, tall] ''out'')) ! 0) =
     AddImage \<lparr>width = 2, height = 1\<rparr> ''JPEG'' (Fin 15) (Fin 15) (Fin 267) (Fin (267 / 2))
   \<and> hd (pages (doc (generatePdf a4 [wide, tall] ''out'')) ! 1) =
     AddImage \<lparr>width = 1, height = 3\<rparr> ''JPEG'' (Fin (731 / 6)) (Fin 15) (Fin (160 / 3)) (Fin 160)"
  using placement_branches [of 0 "[wide, tall]" "\<lparr>width = 2, height = 1\<rparr>" a4 "''out''"]
        placement_branches [of 1 "[wide, tall]" "\<lparr>width = 1, height = 3\<rparr>" a4 "''out''"]
  by (simp add: wide_def tall_def image_x_def image_y_def imgFinalWidth_def imgFinalHeight_def
      imgRatio_def a4_page MARGIN_def js_sub_def)

lemma box_values:
  "MAX_WIDTH ps = Fin (getWidth ps - 30)" "MAX_HEIGHT ps = Fin (getHeight ps - 50)"
  by (simp_all add: MAX_WIDTH_def MAX_HEIGHT_def PAGE_WIDTH_def PAGE_HEIGHT_def MARGIN_def
      FOOTER_HEIGHT_def js_sub_def)

lemma fit_wide:
  fixes r mw mh :: real
  assumes "0 < r" "0 < mw" "0 < mh" "mw / mh < r"
  shows "mw / r \<noteq> 0" and "mw / (mw / r) = r" and "mw / r \<le> mh"
proof -
  show "mw / r \<noteq> 0" using assms by simp
  show "mw / (mw / r) = r" using assms by simp
  have "mw < r * mh" using assms by (simp add: pos_divide_less_eq)
  then show "mw / r \<le> mh" using assms by (simp add: pos_divide_le_eq mult.commute)
qed

lemma fit_tall:
  fixes r mw mh :: real
  assumes "0 < r" "0 < mw" "0 < mh" "\<not> mw / mh < r"
  shows "mh * r / mh = r" and "mh * r \<le> mw"
proof -
  show "mh * r / mh = r" using assms by simp
  have "r \<le> mw / mh" using assms by simp
  then show "mh * r \<le> mw" using assms by (simp add: pos_le_divide_eq mult.commute)
qed

text \<open>
  C2. On a page whose content box has positive width and height (as landscape A4 has),
  every decoded image with positive width and height is placed with its aspect ratio
  kept (final width / final height is width / height) and inside the content box: final
  width at most \<open>MAX_WIDTH = PAGE_WIDTH - MARGIN * 2\<close> and final height at most
  \<open>MAX_HEIGHT = PAGE_HEIGHT - MARGIN * 2 - FOOTER_HEIGHT\<close>.
\<close>

theorem placement_fits:
  assumes "i < length files" and "decoded (files ! i) = Some img"
    and "0 < width img" and "0 < height img"
    and "js_gt (MAX_WIDTH ps) (Fin 0)" and "js_gt (MAX_HEIGHT ps) (Fin 0)"
  shows "hd (pages (doc (generatePdf ps files nm)) ! i) =
           AddImage img ''JPEG'' (image_x ps img) image_y (imgFinalWidth ps img) (imgFinalHeight ps img)
       \<and> js_div (imgFinalWidth ps img) (imgFinalHeight ps img) =
           js_div (Fin (real (width img))) (Fin (real (height img)))
       \<and> js_le (imgFinalWidth ps img) (MAX_WIDTH ps)
       \<and> js_le (imgFinalHeight ps img) (MAX_HEIGHT ps)
       \<and> MAX_WIDTH ps = js_sub (PAGE_WIDTH ps) (js_mul MARGIN (Fin 2))
       \<and> MAX_HEIGHT ps = js_sub (js_sub (PAGE_HEIGHT ps) (js_mul MARGIN (Fin 2))) FOOTER_HEIGHT"
proof -
  define r where "r = real (width img) / real (height img)"
  define mw where "mw = getWidth ps - 30"
  define mh where "mh = getHeight ps - 50"
  have box: "MAX_WIDTH ps = Fin mw" "MAX_HEIGHT ps = Fin mh"
    by (simp_all add: box_values mw_def mh_def)
  have pos: "0 < r" "0 < mw" "0 < mh"
    using assms(3-6) by (simp_all add: r_def box)
  have ratio: "imgRatio img = Fin r"
    using assms(4) by (simp add: imgRatio_def r_def)
  have m: "maxRatio ps = Fin (mw / mh)"
    using pos by (simp add: maxRatio_def box)
  have page: "hd (pages (doc (generatePdf ps files nm)) ! i) =
           AddImage img ''JPEG'' (image_x ps img) image_y (imgFinalWidth ps img) (imgFinalHeight ps img)"
    using assms(1,2) by (simp add: page_decoded try_calls_def)
  have size: "js_div (imgFinalWidth ps img) (imgFinalHeight ps img) = Fin r
      \<and> js_le (imgFinalWidth ps img) (Fin mw) \<and> js_le (imgFinalHeight ps img) (Fin mh)"
  proof (cases "mw / mh < r")
    case True
    from fit_wide [OF pos True] True pos show ?thesis
      by (simp add: imgFinalWidth_def imgFinalHeight_def ratio m box)
  next
    case False
    from fit_tall [OF pos False] False pos show ?thesis
      by (simp add: imgFinalWidth_def imgFinalHeight_def ratio m box)
  qed
  have "js_div (Fin (real (width img))) (Fin (real (height img))) = Fin r"
    using ratio by (simp add: imgRatio_def)
  with page size show ?thesis
    by (simp add: box [symmetric] MAX_WIDTH_def MAX_HEIGHT_def)
qed

theorem placement_fits_witness:
  "js_div (imgFinalWidth a4 \<lparr>width = 2, height = 1\<rparr>) (imgFinalHeight a4 \<lparr>width = 2, height = 1\<rparr>) = Fin 2
   \<and> js_le (imgFinalWidth a4 \<lparr>width = 2, height = 1\<rparr>) (Fin 267)
   \<and> js_le (imgFinalHeight a4 \<lparr>width = 2, height = 1\<rparr>) (Fin 160)"
  using placement_fits [of 0 "[wide]" "\<lparr>width = 2, height = 1\<rparr>" a4 "''out''"]
  by (simp add: wide_def a4_page MARGIN_def FOOTER_HEIGHT_def js_sub_def)

section \<open>Centring\<close>




section \<open>Pages of the document\<close>

lemma page_calls_cong:
  "length files' = length files \<Longrightarrow> files' ! i = files ! i \<Longrightarrow>
   page_calls ps files' i = page_calls ps files i"
  by (simp add: page_calls_def try_calls_def pageNumText_def split: sum.splits)

lemma generatePdf_length:
  "files \<noteq> [] \<Longrightarrow> length (pages (doc (generatePdf ps files nm))) = length files"
  by (simp add: generatePdf_pages)

text \<open>
  C4, as stated, fails for the empty list: the writer opens its first page when it is
  created, the loop never runs, and the document saved has one page for no image.
\<close>

theorem page_count_counterexample:
  "length (pages (doc (generatePdf a4 [] ''out''))) \<noteq> length ([] :: File list)"
  by (simp add: generatePdf_pages)

text \<open>
  C4, amended. For every non-empty list of files the document has exactly one page per
  file, whether the files decode or not.
\<close>

theorem page_count:
  "files \<noteq> [] \<Longrightarrow> length (pages (doc (generatePdf ps files nm))) = length files"
  by (simp add: generatePdf_pages)

theorem page_count_witness:
  "[corrupt, corrupt] \<noteq> [] \<and> decoded corrupt = None
   \<and> length (pages (doc (generatePdf a4 [corrupt, corrupt] ''out''))) = 2"
  using page_count [of "[corrupt, corrupt]" a4 "''out''"]
  by (simp add: corrupt_def)




text \<open>
  C6. The page of a file that does not decode holds no image: after the font, the text
  colour is set to red (255, 0, 0) and the line \<open>Error: Could not load image "<name>"\<close>
  is drawn at \<open>(MARGIN, MARGIN)\<close>. Every file is handed to \<^verbatim>\<open>loadImage\<close> exactly once, in
  input order (no retry); the document still has one page per file; replacing the failing
  file by any other leaves every other page as it is; and the document is saved.
\<close>

theorem error_page:
  assumes "i < length files" and "decoded (files ! i) = None"
  shows "pages (doc (generatePdf ps files nm)) ! i =
           [SetFont ''gothic'' ''normal'', SetTextColor [255, 0, 0],
            Text (''Error: '' @ ''Could not load image '' @ [CHR 0x22] @ name (files ! i) @ [CHR 0x22])
              MARGIN MARGIN None]
       \<and> loadImage_calls (generatePdf ps files nm) = files
       \<and> length (pages (doc (generatePdf ps files nm))) = length files
       \<and> (\<forall>j g. j < length files \<and> j \<noteq> i \<longrightarrow>
            pages (doc (generatePdf ps (files[i := g]) nm)) ! j =
            pages (doc (generatePdf ps files nm)) ! j)
       \<and> saved (doc (generatePdf ps files nm)) = Some (nm @ ''.pdf'')"
proof -
  have ne: "files \<noteq> []" using assms(1) by auto
  have "pages (doc (generatePdf ps (files[i := g]) nm)) ! j =
        pages (doc (generatePdf ps files nm)) ! j" if "j < length files" "j \<noteq> i" for j g
  proof -
    have "page_calls ps (files[i := g]) j = page_calls ps files j"
      using that by (intro page_calls_cong) simp_all
    with that show ?thesis by (simp add: generatePdf_page)
  qed
  with assms ne show ?thesis
    by (simp add: page_failed catch_calls_def errorText_def generatePdf_loads generatePdf_length
        generatePdf_saved)
qed

theorem error_page_witness:
  "pages (doc (generatePdf a4 [wide, corrupt, tall] ''out'')) ! 1 =
     [SetFont ''gothic'' ''normal'', SetTextColor [255, 0, 0],
      Text (''Error: Could not load image '' @ [CHR 0x22] @ ''bad.png'' @ [CHR 0x22]) (Fin 15) (Fin 15) None]
   \<and> loadImage_calls (generatePdf a4 [wide, corrupt, tall] ''out'') = [wide, corrupt, tall]
   \<and> length (pages (doc (generatePdf a4 [wide, corrupt, tall] ''out''))) = 3"
  using error_page [of 1 "[wide, corrupt, tall]" a4 "''out''"]
  by (simp add: corrupt_def MARGIN_def)



section \<open>Validation before a run\<close>

lemma trim_blank: "trim ''  '' = []"
  by (simp add: trim_def WhiteSpace_def)


text \<open>
  C8. When the image list is empty or the trimmed file name is empty,
  \<open>handleGeneratePdf\<close> sets a readable error message and returns: \<open>generatePdf\<close> is not
  called (no run, no page), and nothing else of the state changes.
\<close>

theorem validation_rejects:
  assumes "imageFiles s = [] \<or> trim (pdfFilename s) = []"
  shows "handleGeneratePdf ps s =
           (s\<lparr>error := Some (if imageFiles s = [] then ''Please add at least one image.''
                               else ''Please provide a filename for the PDF.'')\<rparr>, None)"
  using assms by (auto simp: handleGeneratePdf_def)

theorem validation_rejects_witness:
  "handleGeneratePdf a4 (app0\<lparr>imageFiles := []\<rparr>) =
     (app0\<lparr>imageFiles := [], error := Some ''Please add at least one image.''\<rparr>, None)
   \<and> handleGeneratePdf a4 (app0\<lparr>pdfFilename := ''  ''\<rparr>) =
     (app0\<lparr>pdfFilename := ''  '', error := Some ''Please provide a filename for the PDF.''\<rparr>, None)"
proof -
  have "handleGeneratePdf a4 (app0\<lparr>imageFiles := []\<rparr>) =
     (app0\<lparr>imageFiles := [], error := Some ''Please add at least one image.''\<rparr>, None)"
    using validation_rejects [of "app0\<lparr>imageFiles := []\<rparr>" a4] by simp
  moreover have "handleGeneratePdf a4 (app0\<lparr>pdfFilename := ''  ''\<rparr>) =
     (app0\<lparr>pdfFilename := ''  '', error := Some ''Please provide a filename for the PDF.''\<rparr>, None)"
    using validation_rejects [of "app0\<lparr>pdfFilename := ''  ''\<rparr>" a4]
    by (simp add: trim_blank app0_def)
  ultimately show ?thesis by simp
qed

section \<open>Reordering and removing\<close>

lemma splice_remove_one:
  "a < length xs \<Longrightarrow> splice_js a (Suc 0) [] xs = ([xs ! a], take a xs @ drop (Suc a) xs)"
  by (simp add: splice_js_def Let_def min_def take_Suc_conv_app_nth)

lemma splice_insert_one:
  "b \<le> length xs \<Longrightarrow> splice_js b 0 [x] xs = ([], take b xs @ x # drop b xs)"
  by (simp add: splice_js_def Let_def min_def)

lemma handleDrop_in_range:
  assumes "dragItemIndex s = Some a" and "dragOverItemIndex s = Some b"
    and "a < length (imageFiles s)" and "b < length (imageFiles s)" and "a \<noteq> b"
    and "rest = take a (imageFiles s) @ drop (Suc a) (imageFiles s)"
  shows "handleDrop s = Inr (s\<lparr>imageFiles := take b rest @ imageFiles s ! a # drop b rest\<rparr>)"
proof -
  have first: "splice_js a (Suc 0) [] (imageFiles s) = ([imageFiles s ! a], rest)"
    using assms(3,6) by (simp add: splice_remove_one)
  have "b \<le> length rest"
    using assms(3,4,6) by auto
  then have second: "splice_js b 0 [imageFiles s ! a] rest =
      ([], take b rest @ imageFiles s ! a # drop b rest)"
    by (rule splice_insert_one)
  show ?thesis
    using assms(1,2,5) by (simp add: handleDrop_def first second)
qed

text \<open>
  C9. A drop with dragged index \<open>a\<close> and target index \<open>b\<close>, both in range and different,
  succeeds; in the new list the dragged item sits at index \<open>b\<close>, and taking it out
  again gives the old list without its element at \<open>a\<close>. Length and multiset of the
  elements are kept, and the rest of the state is untouched.
\<close>

theorem drop_moves_item:
  assumes "dragItemIndex s = Some a" and "dragOverItemIndex s = Some b"
    and "a < length (imageFiles s)" and "b < length (imageFiles s)" and "a \<noteq> b"
  shows "\<exists>s'. handleDrop s = Inr s'
           \<and> imageFiles s' ! b = imageFiles s ! a
           \<and> take b (imageFiles s') @ drop (Suc b) (imageFiles s') =
               take a (imageFiles s) @ drop (Suc a) (imageFiles s)
           \<and> length (imageFiles s') = length (imageFiles s)
           \<and> mset (imageFiles s') = mset (imageFiles s)
           \<and> s'\<lparr>imageFiles := imageFiles s\<rparr> = s"
proof -
  define xs where "xs = imageFiles s"
  define rest where "rest = take a xs @ drop (Suc a) xs"
  define ys where "ys = take b rest @ xs ! a # drop b rest"
  have len: "length rest = length xs - 1" and b: "b \<le> length rest"
    using assms(3,4) by (auto simp: rest_def xs_def)
  have run: "handleDrop s = Inr (s\<lparr>imageFiles := ys\<rparr>)"
    using handleDrop_in_range [OF assms, of rest] by (simp add: ys_def rest_def xs_def)
  have at_b: "ys ! b = xs ! a"
    using b by (simp add: ys_def nth_append)
  have others: "take b ys @ drop (Suc b) ys = rest"
    using b by (simp add: ys_def)
  have size: "length ys = length xs"
    using b len assms(3) by (simp add: ys_def xs_def)
  have "mset ys = mset rest + {#xs ! a#}"
    by (simp add: ys_def flip: mset_append [of "take b rest" "drop b rest"])
  also have "\<dots> = mset (take a xs @ xs ! a # drop (Suc a) xs)"
    by (simp add: rest_def)
  also have "\<dots> = mset xs"
    using assms(3) by (simp add: id_take_nth_drop [symmetric] xs_def)
  finally have bag: "mset ys = mset xs" .
  show ?thesis
    using run at_b others size bag by (simp add: xs_def rest_def)
qed

theorem drop_moves_item_witness:
  "handleDrop (handleDragEnter 2 (handleDragStart 0 app0)) =
     Inr (app0\<lparr>dragItemIndex := Some 0, dragOverItemIndex := Some 2,
               imageFiles := [imageFiles app0 ! 1, imageFiles app0 ! 2, imageFiles app0 ! 0]\<rparr>)"
  using drop_moves_item [of "handleDragEnter 2 (handleDragStart 0 app0)" 0 2]
  by (auto simp: handleDragEnter_def handleDragStart_def app0_def handleDrop_def splice_js_def)

lemma filter_indexed_remove:
  "filter_indexed (\<lambda>_ index. index \<noteq> i) xs = take i xs @ drop (Suc i) xs"
proof (induction xs rule: rev_induct)
  case Nil
  then show ?case by (simp add: filter_indexed_def)
next
  case (snoc x xs)
  have "zip (xs @ [x]) [0..<length (xs @ [x])] = zip xs [0..<length xs] @ [(x, length xs)]"
    by simp
  then have step: "filter_indexed (\<lambda>_ index. index \<noteq> i) (xs @ [x]) =
      filter_indexed (\<lambda>_ index. index \<noteq> i) xs @ (if length xs \<noteq> i then [x] else [])"
    unfolding filter_indexed_def by simp
  show ?case
    unfolding step snoc.IH by (cases "i < length xs") auto
qed

text \<open>
  C10. Removing at an index \<open>i\<close> in range yields the list without its element at \<open>i\<close>,
  the others in their order, and revokes exactly one preview URL, that of the removed
  element; nothing else of the state changes.
\<close>

theorem remove_file:
  assumes "i < length (imageFiles s)"
  shows "handleRemoveFile i s =
           Inr (s\<lparr>revoked := revoked s @ [previewUrl (imageFiles s ! i)],
                  imageFiles := take i (imageFiles s) @ drop (Suc i) (imageFiles s)\<rparr>)"
  using assms by (simp add: handleRemoveFile_def Let_def filter_indexed_remove)

theorem remove_file_witness:
  "handleRemoveFile 1 app0 =
     Inr (app0\<lparr>revoked := [''blob:2''], imageFiles := [imageFiles app0 ! 0, imageFiles app0 ! 2]\<rparr>)"
  using remove_file [of 1 app0]
  by (simp add: app0_def)

end
